theory Spec2Isabelle
  imports Main "HOL-Library.AList"
begin

section \<open>Values, errors and the workbook\<close>

text \<open>
  A cell value as the extractor sees it. The source never inspects a value beyond the test
  \<^verbatim>\<open>cell_value is not None\<close>, so the only distinction that matters is \<open>NoneValue\<close> against
  everything else. Numbers are integers here; floating point values are not modelled.
\<close>

datatype cell_value =
    NoneValue
  | Text string
  | Number int
  | Boolean bool
  | DateTime int

text \<open>
  An exception message is an f-string: literal text and \<^verbatim>\<open>str\<close>-formatted arguments are
  rendered (\<open>Lit\<close>), a list of strings formatted by \<^verbatim>\<open>repr\<close> is kept as the list it prints
  (\<open>ListRepr\<close>).
\<close>

datatype fpart = Lit string | ListRepr "string list"

datatype py_error =
    FileNotFoundError "fpart list"
  | ValueError "fpart list"
  | OtherError string "fpart list"

fun exc_str :: "py_error \<Rightarrow> fpart list" where
  "exc_str (FileNotFoundError m) = m"
| "exc_str (ValueError m) = m"
| "exc_str (OtherError cls m) = m"

fun is_FileNotFoundError :: "py_error \<Rightarrow> bool" where
  "is_FileNotFoundError (FileNotFoundError m) = True"
| "is_FileNotFoundError (ValueError m) = False"
| "is_FileNotFoundError (OtherError cls m) = False"

fun is_ValueError :: "py_error \<Rightarrow> bool" where
  "is_ValueError (FileNotFoundError m) = False"
| "is_ValueError (ValueError m) = True"
| "is_ValueError (OtherError cls m) = False"

text \<open>
  The worksheet of the spreadsheet library: the value stored at (row, column), \<open>NoneValue\<close>
  where nothing is stored, and the largest populated row.
\<close>

record worksheet =
  ws_value :: "int \<Rightarrow> int \<Rightarrow> cell_value"
  max_row :: int

text \<open>A workbook is its sheets in order, each under its title.\<close>

type_synonym workbook = "(string \<times> worksheet) list"

definition sheetnames :: "workbook \<Rightarrow> string list" where
  "sheetnames wb = map fst wb"

text \<open>
  \<^verbatim>\<open>workbook[sheet_name]\<close>: the first sheet with that title, \<^verbatim>\<open>KeyError\<close> when there is none.
\<close>

definition workbook_getitem :: "workbook \<Rightarrow> string \<Rightarrow> py_error + worksheet" where
  "workbook_getitem wb name =
     (case map_of wb name of
        None \<Rightarrow> Inl (OtherError ''KeyError'' [Lit (''Worksheet '' @ name @ '' does not exist.'')])
      | Some ws \<Rightarrow> Inr ws)"

text \<open>
  Modelled from the spec: \<^verbatim>\<open>worksheet.cell(row=..., column=...)\<close> belongs to the spreadsheet
  library, which is not under src/. The spec (section 3) makes a sheet a grid addressable by
  (row, column), 1-indexed, where a cell beyond the populated area holds the absent value; the
  library rejects a row or column below 1 with \<^verbatim>\<open>ValueError\<close>, kept here as the failing
  branch.
\<close>

definition cell :: "worksheet \<Rightarrow> int \<Rightarrow> int \<Rightarrow> py_error + cell_value" where
  "cell ws row column =
     (if row < 1 \<or> column < 1
      then Inl (ValueError [Lit ''Row or column values must be at least 1''])
      else Inr (ws_value ws row column))"

section \<open>Formatting integers and column letters\<close>

text \<open>\<^verbatim>\<open>str(n)\<close> for a Python int: decimal digits, a leading minus sign when negative.\<close>

definition digit_char :: "nat \<Rightarrow> char" where
  "digit_char d = char_of (48 + d)"

fun str_nat :: "nat \<Rightarrow> string" where
  "str_nat n = (if n < 10 then [digit_char n] else str_nat (n div 10) @ [digit_char (n mod 10)])"

declare str_nat.simps [simp del]

definition str_int :: "int \<Rightarrow> string" where
  "str_int i = (if i < 0 then CHR ''-'' # str_nat (nat (- i)) else str_nat (nat i))"

text \<open>
  Modelled from the spec: \<^verbatim>\<open>get_column_letter\<close> belongs to the spreadsheet library
  (\<^verbatim>\<open>openpyxl.utils\<close>), which is not under src/. The spec (section 4.2 and the glossary) fixes
  base-26 column naming with the letters A to Z and no zero column (A, B, ..., Z, AA, ...).
  \<open>column_letters\<close> is the library's loop: divide by 26, borrow on an exact division, append
  the letter of the remainder; the letters come out least significant first and are reversed
  at the end. The library covers the columns A to ZZZ (1 to 18278) and raises
  \<^verbatim>\<open>ValueError\<close> outside that range.
\<close>

fun column_letters :: "nat \<Rightarrow> char list" where
  "column_letters col_idx =
     (if col_idx = 0 then []
      else if col_idx mod 26 = 0
        then char_of (26 + 64 :: nat) # column_letters (col_idx div 26 - 1)
        else char_of (col_idx mod 26 + 64) # column_letters (col_idx div 26))"

declare column_letters.simps [simp del]

definition get_column_letter :: "int \<Rightarrow> py_error + string" where
  "get_column_letter idx =
     (if 1 \<le> idx \<and> idx \<le> 18278
      then Inr (rev (column_letters (nat idx)))
      else Inl (ValueError [Lit (''Invalid column index '' @ str_int idx)]))"

text \<open>
  Modelled from the spec: \<^verbatim>\<open>column_index_from_string\<close> belongs to the same library. The spec
  (section 4.2) has it convert column letters to 1-indexed column numbers by the rules of
  spreadsheet column naming: base 26, letters A to Z, case-insensitive, no zero column, and
  fail on a string that is not a column designator (empty, with a character that is not a
  letter). The library knows the designators of one to three letters and raises
  \<^verbatim>\<open>ValueError\<close> with the message below on any other string. Upper-casing is that of the
  ASCII letters.
\<close>

definition upper_char :: "char \<Rightarrow> char" where
  "upper_char ch =
     (if 97 \<le> (of_char ch :: nat) \<and> (of_char ch :: nat) \<le> 122
      then char_of ((of_char ch :: nat) - 32) else ch)"

definition is_upper_letter :: "char \<Rightarrow> bool" where
  "is_upper_letter ch \<longleftrightarrow> 65 \<le> (of_char ch :: nat) \<and> (of_char ch :: nat) \<le> 90"

fun letters_value :: "char list \<Rightarrow> nat" where
  "letters_value [] = 0"
| "letters_value (ch # chs) = ((of_char ch :: nat) - 64) + 26 * letters_value chs"

definition column_index_from_string :: "string \<Rightarrow> py_error + int" where
  "column_index_from_string str_col =
     (let u = map upper_char str_col in
      if 1 \<le> length u \<and> length u \<le> 3 \<and> list_all is_upper_letter u
      then Inr (int (letters_value (rev u)))
      else Inl (ValueError [Lit (str_col @ '' is not a valid column name'')]))"

section \<open>The range extractor\<close>

type_synonym cell_mapping = "(string \<times> (int \<times> int)) list"

text \<open>
  The inner loop of \<^verbatim>\<open>extract_cells_by_column_range\<close> over the remaining column indices.
  Its state is \<^verbatim>\<open>row_data\<close>, \<^verbatim>\<open>row_has_data\<close> and \<^verbatim>\<open>cell_mapping\<close>; the dictionary is an
  association list in insertion order, and \<^verbatim>\<open>cell_mapping[cell_address] = ...\<close> replaces the
  value of a key that is present and appends a new key otherwise.
\<close>

fun scan_columns ::
  "worksheet \<Rightarrow> int \<Rightarrow> int \<Rightarrow> int \<Rightarrow> int list \<Rightarrow>
   cell_value list \<times> bool \<times> cell_mapping \<Rightarrow>
   py_error + (cell_value list \<times> bool \<times> cell_mapping)" where
  "scan_columns worksheet start_column row_idx data_row_index [] st = Inr st"
| "scan_columns worksheet start_column row_idx data_row_index (col_idx # cols)
       (row_data, row_has_data, cell_mapping) =
     (case cell worksheet row_idx col_idx of
        Inl e \<Rightarrow> Inl e
      | Inr cell_value \<Rightarrow>
          (case get_column_letter col_idx of
             Inl e \<Rightarrow> Inl e
           | Inr letter \<Rightarrow>
               scan_columns worksheet start_column row_idx data_row_index cols
                 (row_data @ [cell_value],
                  (if cell_value \<noteq> NoneValue then True else row_has_data),
                  AList.update (letter @ str_int row_idx)
                    (data_row_index, col_idx - start_column) cell_mapping)))"

text \<open>
  The outer loop over the remaining row indices, with the state \<^verbatim>\<open>extracted_data\<close>,
  \<^verbatim>\<open>cell_mapping\<close> and \<^verbatim>\<open>data_row_index\<close>.
\<close>

fun scan_rows ::
  "worksheet \<Rightarrow> int \<Rightarrow> int \<Rightarrow> bool \<Rightarrow> int list \<Rightarrow>
   cell_value list list \<times> cell_mapping \<times> int \<Rightarrow>
   py_error + (cell_value list list \<times> cell_mapping \<times> int)" where
  "scan_rows worksheet start_column end_column include_empty [] st = Inr st"
| "scan_rows worksheet start_column end_column include_empty (row_idx # rows)
       (extracted_data, cell_mapping, data_row_index) =
     (case scan_columns worksheet start_column row_idx data_row_index
             [start_column..end_column] ([], False, cell_mapping) of
        Inl e \<Rightarrow> Inl e
      | Inr (row_data, row_has_data, cell_mapping') \<Rightarrow>
          (if row_has_data \<or> include_empty
           then scan_rows worksheet start_column end_column include_empty rows
                  (extracted_data @ [row_data], cell_mapping', data_row_index + 1)
           else scan_rows worksheet start_column end_column include_empty rows
                  (extracted_data, cell_mapping', data_row_index)))"

text \<open>
  \<^verbatim>\<open>extract_cells_by_column_range\<close>. The first argument is the library's
  \<^verbatim>\<open>load_workbook\<close>: what opening a path gives, a workbook or the exception raised. An omitted
  \<^verbatim>\<open>end_row\<close> is \<open>None\<close>.
\<close>

definition extract_cells_by_column_range ::
  "(string \<Rightarrow> py_error + workbook) \<Rightarrow> string \<Rightarrow> string \<Rightarrow> int \<Rightarrow> int \<Rightarrow> int \<Rightarrow> int option \<Rightarrow> bool \<Rightarrow>
   py_error + (cell_value list list \<times> cell_mapping)" where
  "extract_cells_by_column_range load_workbook file_path sheet_name start_column end_column
       start_row end_row include_empty =
     (case load_workbook file_path of
        Inl e \<Rightarrow>
          (if is_FileNotFoundError e
           then Inl (FileNotFoundError [Lit (''Excel file not found: '' @ file_path)])
           else Inl e)
      | Inr workbook \<Rightarrow>
          if sheet_name \<notin> set (sheetnames workbook)
          then Inl (ValueError
                 [Lit (''Sheet '' @ [CHR 0x27] @ sheet_name @ [CHR 0x27]
                       @ '' not found. Available sheets: ''),
                  ListRepr (sheetnames workbook)])
          else
            (case workbook_getitem workbook sheet_name of
               Inl e \<Rightarrow> Inl e
             | Inr worksheet \<Rightarrow>
                 if start_column < 1 \<or> end_column < start_column
                 then Inl (ValueError
                        [Lit (''Invalid column range: start_column='' @ str_int start_column
                              @ '', end_column='' @ str_int end_column)])
                 else
                   (let end_row' = (case end_row of None \<Rightarrow> max_row worksheet | Some e \<Rightarrow> e) in
                    case scan_rows worksheet start_column end_column include_empty
                           [start_row..end_row'] ([], [], 0) of
                      Inl e \<Rightarrow> Inl e
                    | Inr (extracted_data, cell_mapping, data_row_index) \<Rightarrow>
                        Inr (extracted_data, cell_mapping))))"

section \<open>The column-letter entry point\<close>

text \<open>
  \<^verbatim>\<open>extract_cells_by_column_letters\<close>: both conversions run inside the \<^verbatim>\<open>try\<close>, whose handler
  catches \<^verbatim>\<open>ValueError\<close> only and raises a \<^verbatim>\<open>ValueError\<close> around the text of the caught one;
  the delegated call is outside the \<^verbatim>\<open>try\<close>.
\<close>

definition wrap_conversion_error :: "py_error \<Rightarrow> py_error" where
  "wrap_conversion_error e =
     (if is_ValueError e then ValueError (Lit ''Invalid column letters: '' # exc_str e) else e)"

definition extract_cells_by_column_letters ::
  "(string \<Rightarrow> py_error + workbook) \<Rightarrow> string \<Rightarrow> string \<Rightarrow> string \<Rightarrow> string \<Rightarrow> int \<Rightarrow> int option \<Rightarrow> bool \<Rightarrow>
   py_error + (cell_value list list \<times> cell_mapping)" where
  "extract_cells_by_column_letters load_workbook file_path sheet_name start_column end_column
       start_row end_row include_empty =
     (case column_index_from_string start_column of
        Inl e \<Rightarrow> Inl (wrap_conversion_error e)
      | Inr start_col_num \<Rightarrow>
          (case column_index_from_string end_column of
             Inl e \<Rightarrow> Inl (wrap_conversion_error e)
           | Inr end_col_num \<Rightarrow>
               extract_cells_by_column_range load_workbook file_path sheet_name
                 start_col_num end_col_num start_row end_row include_empty))"

section \<open>Describing the result\<close>

text \<open>
  The address of a cell as the inner loop builds it, the letters of the column followed by
  the row number, and what is needed to read such a string back.
\<close>

definition cell_address :: "int \<Rightarrow> int \<Rightarrow> string" where
  "cell_address col_idx row_idx = rev (column_letters (nat col_idx)) @ str_int row_idx"

definition is_digit :: "char \<Rightarrow> bool" where
  "is_digit ch \<longleftrightarrow> 48 \<le> (of_char ch :: nat) \<and> (of_char ch :: nat) \<le> 57"

definition digits_value :: "char list \<Rightarrow> nat" where
  "digits_value chs = foldl (\<lambda>acc ch. 10 * acc + ((of_char ch :: nat) - 48)) 0 chs"

text \<open>
  The values of one row in the requested columns, whether the row holds any value other than
  \<open>NoneValue\<close> there, and whether the scan keeps it.
\<close>

definition row_values :: "worksheet \<Rightarrow> int \<Rightarrow> int \<Rightarrow> int \<Rightarrow> cell_value list" where
  "row_values ws sc ec r = map (ws_value ws r) [sc..ec]"

definition row_has_data :: "worksheet \<Rightarrow> int \<Rightarrow> int \<Rightarrow> int \<Rightarrow> bool" where
  "row_has_data ws sc ec r \<longleftrightarrow> (\<exists>c \<in> set [sc..ec]. ws_value ws r c \<noteq> NoneValue)"

definition row_kept :: "worksheet \<Rightarrow> int \<Rightarrow> int \<Rightarrow> bool \<Rightarrow> int \<Rightarrow> bool" where
  "row_kept ws sc ec ie r \<longleftrightarrow> row_has_data ws sc ec r \<or> ie"

text \<open>
  The entries the scan of one row adds to the mapping, and those of a list of rows scanned
  from the counter \<open>idx\<close> on.
\<close>

definition row_entries :: "int \<Rightarrow> int \<Rightarrow> int \<Rightarrow> int list \<Rightarrow> cell_mapping" where
  "row_entries sc idx r cols = map (\<lambda>c. (cell_address c r, (idx, c - sc))) cols"

fun mapping_entries :: "worksheet \<Rightarrow> int \<Rightarrow> int \<Rightarrow> bool \<Rightarrow> int \<Rightarrow> int list \<Rightarrow> cell_mapping" where
  "mapping_entries ws sc ec ie idx [] = []"
| "mapping_entries ws sc ec ie idx (r # rs) =
     row_entries sc idx r [sc..ec]
     @ mapping_entries ws sc ec ie (if row_kept ws sc ec ie r then idx + 1 else idx) rs"

text \<open>
  The end row the scan uses, and the number of rows kept before a row: the value of
  \<^verbatim>\<open>data_row_index\<close> when that row is scanned.
\<close>

definition effective_end_row :: "worksheet \<Rightarrow> int option \<Rightarrow> int" where
  "effective_end_row ws end_row = (case end_row of None \<Rightarrow> max_row ws | Some e \<Rightarrow> e)"

definition kept_before :: "worksheet \<Rightarrow> int \<Rightarrow> int \<Rightarrow> bool \<Rightarrow> int \<Rightarrow> int \<Rightarrow> int" where
  "kept_before ws sc ec ie sr r = int (length (filter (row_kept ws sc ec ie) [sr..r - 1]))"

section \<open>A small workbook\<close>

text \<open>
  One sheet, \<open>Sheet1\<close>, of four rows and two columns: a header row, an empty row, a row
  holding zero and the empty text, and a row holding nothing and false. One path exists but
  is not a workbook; every other path is missing.
\<close>

fun demo_value :: "int \<Rightarrow> int \<Rightarrow> cell_value" where
  "demo_value row column =
     (if row = 1 \<and> column = 1 then Text ''H1''
      else if row = 1 \<and> column = 2 then Text ''H2''
      else if row = 3 \<and> column = 1 then Number 0
      else if row = 3 \<and> column = 2 then Text []
      else if row = 4 \<and> column = 2 then Boolean False
      else NoneValue)"

definition demo_sheet :: worksheet where
  "demo_sheet = \<lparr>ws_value = demo_value, max_row = 4\<rparr>"

definition demo_load :: "string \<Rightarrow> py_error + workbook" where
  "demo_load path =
     (if path = ''book.xlsx'' then Inr [(''Sheet1'', demo_sheet)]
      else if path = ''notes.txt''
        then Inl (OtherError ''InvalidFileException''
                    [Lit ''openpyxl does not support .txt file format''])
        else Inl (FileNotFoundError [Lit (''[Errno 2] No such file or directory: '' @ path)]))"

text \<open>What the extractor returns on the sheet, without and with the empty rows.\<close>

definition demo_table :: "cell_value list list" where
  "demo_table = [[Text ''H1'', Text ''H2''], [Number 0, Text []], [NoneValue, Boolean False]]"

definition demo_table_all :: "cell_value list list" where
  "demo_table_all =
     [[Text ''H1'', Text ''H2''], [NoneValue, NoneValue], [Number 0, Text []],
      [NoneValue, Boolean False]]"

definition demo_mapping :: cell_mapping where
  "demo_mapping =
     [(''A1'', 0, 0), (''B1'', 0, 1), (''A2'', 1, 0), (''B2'', 1, 1),
      (''A3'', 1, 0), (''B3'', 1, 1), (''A4'', 2, 0), (''B4'', 2, 1)]"

definition demo_mapping_all :: cell_mapping where
  "demo_mapping_all =
     [(''A1'', 0, 0), (''B1'', 0, 1), (''A2'', 1, 0), (''B2'', 1, 1),
      (''A3'', 2, 0), (''B3'', 2, 1), (''A4'', 3, 0), (''B4'', 3, 1)]"

section \<open>Failures before the scan\<close>

lemma sheet_lookup: "sh \<in> set (sheetnames wb) \<Longrightarrow> \<exists>ws. workbook_getitem wb sh = Inr ws"
  unfolding sheetnames_def workbook_getitem_def
  by (cases "map_of wb sh") (auto simp: map_of_eq_None_iff)

lemma conversion_error:
  "column_index_from_string s = Inl e \<Longrightarrow>
   e = ValueError [Lit (s @ '' is not a valid column name'')]"
  by (auto simp: column_index_from_string_def Let_def split: if_splits)

text \<open>
  Claim C6, as amended. When loading the path raises \<^verbatim>\<open>FileNotFoundError\<close>, the call fails with
  a \<^verbatim>\<open>FileNotFoundError\<close> whose message is "Excel file not found: " followed by the path; when
  loading fails with any other exception, that exception reaches the caller as it is.
\<close>

theorem load_failure:
  assumes "load_workbook f = Inl e"
  shows "extract_cells_by_column_range load_workbook f sh sc ec sr er ie =
     (if is_FileNotFoundError e
      then Inl (FileNotFoundError [Lit (''Excel file not found: '' @ f)])
      else Inl e)"
  using assms by (simp add: extract_cells_by_column_range_def)

theorem load_failure_witness:
  "extract_cells_by_column_range demo_load ''gone.xlsx'' ''Sheet1'' 1 2 1 None False =
     Inl (FileNotFoundError [Lit ''Excel file not found: gone.xlsx''])"
  using load_failure [of demo_load "''gone.xlsx''"
      "FileNotFoundError [Lit (''[Errno 2] No such file or directory: '' @ ''gone.xlsx'')]"
      "''Sheet1''" 1 2 1 None False]
  by (simp add: demo_load_def)

text \<open>
  Claim C6 as stated fails: a path that exists and cannot be opened as a workbook makes the
  loader raise something other than \<^verbatim>\<open>FileNotFoundError\<close>, and the call fails with that
  exception, not with \<^verbatim>\<open>FileNotFoundError\<close>.
\<close>

theorem unopenable_file_not_FileNotFound:
  "demo_load ''notes.txt'' =
     Inl (OtherError ''InvalidFileException'' [Lit ''openpyxl does not support .txt file format''])
   \<and> extract_cells_by_column_range demo_load ''notes.txt'' ''Sheet1'' 1 2 1 None False =
     Inl (OtherError ''InvalidFileException'' [Lit ''openpyxl does not support .txt file format''])
   \<and> \<not> is_FileNotFoundError
         (OtherError ''InvalidFileException'' [Lit ''openpyxl does not support .txt file format''])"
  by (simp add: demo_load_def extract_cells_by_column_range_def)

text \<open>
  Claim C7. On a workbook that opens, a sheet name that is not among the workbook's sheet
  names makes the call fail with a \<^verbatim>\<open>ValueError\<close> whose message carries the list of the
  workbook's sheet names.
\<close>

theorem missing_sheet:
  assumes "load_workbook f = Inr wb" and "sh \<notin> set (sheetnames wb)"
  shows "extract_cells_by_column_range load_workbook f sh sc ec sr er ie =
     Inl (ValueError
       [Lit (''Sheet '' @ [CHR 0x27] @ sh @ [CHR 0x27] @ '' not found. Available sheets: ''),
        ListRepr (sheetnames wb)])"
  using assms by (simp add: extract_cells_by_column_range_def)

theorem missing_sheet_witness:
  "extract_cells_by_column_range demo_load ''book.xlsx'' ''Sheet2'' 1 2 1 None False =
     Inl (ValueError
       [Lit (''Sheet '' @ [CHR 0x27] @ ''Sheet2'' @ [CHR 0x27] @ '' not found. Available sheets: ''),
        ListRepr [''Sheet1'']])"
  using missing_sheet [of demo_load "''book.xlsx''" "[(''Sheet1'', demo_sheet)]" "''Sheet2''"
      1 2 1 None False]
  by (simp add: demo_load_def sheetnames_def)

text \<open>
  Claim C9. With a file that opens, a sheet that exists and a valid column range, an end row
  below the start row gives no error, an empty table and an empty mapping.
\<close>

theorem empty_row_window:
  assumes "load_workbook f = Inr wb" and "sh \<in> set (sheetnames wb)"
    and "1 \<le> sc" and "sc \<le> ec" and "er < sr"
  shows "extract_cells_by_column_range load_workbook f sh sc ec sr (Some er) ie = Inr ([], [])"
proof -
  obtain ws where "workbook_getitem wb sh = Inr ws"
    using sheet_lookup [OF assms(2)] by blast
  with assms show ?thesis
    by (simp add: extract_cells_by_column_range_def)
qed

theorem empty_row_window_witness:
  "extract_cells_by_column_range demo_load ''book.xlsx'' ''Sheet1'' 1 2 5 (Some 3) True =
     Inr ([], [])"
  using empty_row_window [of demo_load "''book.xlsx''" "[(''Sheet1'', demo_sheet)]" "''Sheet1''"
      1 2 3 5 True]
  by (simp add: demo_load_def sheetnames_def)

section \<open>The column-letter entry point delegates\<close>

text \<open>
  Claim C8. When the start letters do not convert, or the start letters convert and the end
  letters do not, the call fails with a \<^verbatim>\<open>ValueError\<close> whose message is
  "Invalid column letters: " followed by the message of the failed conversion; when both
  convert, an error of the delegated call is the error of the call.
\<close>

theorem letters_errors:
  "(column_index_from_string a = Inl e \<longrightarrow>
      extract_cells_by_column_letters lw f sh a b sr er ie =
        Inl (ValueError (Lit ''Invalid column letters: '' # exc_str e)))
   \<and> (column_index_from_string a = Inr x \<and> column_index_from_string b = Inl e \<longrightarrow>
      extract_cells_by_column_letters lw f sh a b sr er ie =
        Inl (ValueError (Lit ''Invalid column letters: '' # exc_str e)))
   \<and> (column_index_from_string a = Inr x \<and> column_index_from_string b = Inr y
        \<and> extract_cells_by_column_range lw f sh x y sr er ie = Inl err \<longrightarrow>
      extract_cells_by_column_letters lw f sh a b sr er ie = Inl err)"
  by (auto simp: extract_cells_by_column_letters_def wrap_conversion_error_def
      dest: conversion_error)

theorem letters_errors_witness:
  "extract_cells_by_column_letters demo_load ''book.xlsx'' ''Sheet1'' ''A1'' ''B'' 1 None False =
     Inl (ValueError [Lit ''Invalid column letters: '', Lit ''A1 is not a valid column name''])
   \<and> extract_cells_by_column_letters demo_load ''book.xlsx'' ''Sheet1'' ''A'' [] 1 None False =
     Inl (ValueError [Lit ''Invalid column letters: '', Lit '' is not a valid column name''])
   \<and> extract_cells_by_column_letters demo_load ''gone.xlsx'' ''Sheet1'' ''A'' ''B'' 1 None False =
     Inl (FileNotFoundError [Lit ''Excel file not found: gone.xlsx''])"
proof -
  have a1: "column_index_from_string ''A1'' =
      Inl (ValueError [Lit ''A1 is not a valid column name''])"
    by (simp add: column_index_from_string_def upper_char_def is_upper_letter_def)
  have a: "column_index_from_string ''A'' = Inr 1"
    by (simp add: column_index_from_string_def upper_char_def is_upper_letter_def)
  have b: "column_index_from_string ''B'' = Inr 2"
    by (simp add: column_index_from_string_def upper_char_def is_upper_letter_def)
  have e: "column_index_from_string [] =
      Inl (ValueError [Lit '' is not a valid column name''])"
    by (simp add: column_index_from_string_def)
  have g: "extract_cells_by_column_range demo_load ''gone.xlsx'' ''Sheet1'' 1 2 1 None False =
      Inl (FileNotFoundError [Lit ''Excel file not found: gone.xlsx''])"
    by (simp add: extract_cells_by_column_range_def demo_load_def)
  show ?thesis
    using letters_errors [of "''A1''" "ValueError [Lit ''A1 is not a valid column name'']"
        demo_load "''book.xlsx''" "''Sheet1''" "''B''" 1 None False]
      letters_errors [of "''A''" "ValueError [Lit '' is not a valid column name'']"
        demo_load "''book.xlsx''" "''Sheet1''" "[]" 1 None False 1]
      letters_errors [of "''A''" _ demo_load "''gone.xlsx''" "''Sheet1''" "''B''" 1 None False 1 2
        "FileNotFoundError [Lit ''Excel file not found: gone.xlsx'']"]
      a1 a b e g
    by simp
qed

section \<open>Cell addresses are unique\<close>

lemma str_nat_digits: "list_all is_digit (str_nat n)"
proof (induction n rule: str_nat.induct)
  case (1 n)
  show ?case
  proof (cases "n < 10")
    case True
    then show ?thesis by (subst str_nat.simps) (simp add: is_digit_def digit_char_def)
  next
    case False
    have "n mod 10 < 10" by simp
    then have "is_digit (digit_char (n mod 10))"
      by (simp add: is_digit_def digit_char_def)
    with False 1 show ?thesis by (subst str_nat.simps) simp
  qed
qed

lemma digits_value_str_nat: "digits_value (str_nat n) = n"
proof (induction n rule: str_nat.induct)
  case (1 n)
  show ?case
  proof (cases "n < 10")
    case True
    then show ?thesis by (subst str_nat.simps) (simp add: digits_value_def digit_char_def)
  next
    case False
    have m: "n mod 10 < 10" by simp
    have "digits_value (str_nat (n div 10) @ [digit_char (n mod 10)])
        = 10 * digits_value (str_nat (n div 10)) + n mod 10"
      using m by (simp add: digits_value_def digit_char_def)
    with False 1 show ?thesis by (subst str_nat.simps) simp
  qed
qed

lemma column_letters_upper: "list_all is_upper_letter (column_letters n)"
proof (induction n rule: column_letters.induct)
  case (1 n)
  show ?case
  proof (cases "n = 0")
    case True
    then show ?thesis by (subst column_letters.simps) simp
  next
    case nz: False
    show ?thesis
    proof (cases "n mod 26 = 0")
      case True
      have "is_upper_letter (char_of (26 + 64 :: nat))"
        by (simp add: is_upper_letter_def)
      with nz True 1 show ?thesis
        by (subst column_letters.simps) simp
    next
      case False
      have "n mod 26 < 26" by simp
      with False have "is_upper_letter (char_of (n mod 26 + 64))"
        by (simp add: is_upper_letter_def)
      with nz False 1 show ?thesis
        by (subst column_letters.simps) simp
    qed
  qed
qed

lemma borrow: "n \<noteq> 0 \<Longrightarrow> n mod 26 = 0 \<Longrightarrow> 26 + 26 * (n div 26 - 1) = (n::nat)"
proof -
  assume nz: "n \<noteq> 0" and m: "n mod 26 = 0"
  then have e: "26 * (n div 26) = n" by auto
  with nz have "1 \<le> n div 26" by (cases "n div 26") auto
  then have "26 + 26 * (n div 26 - 1) = 26 * (n div 26)" by simp
  with e show ?thesis by simp
qed

lemma letters_value_column_letters: "letters_value (column_letters n) = n"
proof (induction n rule: column_letters.induct)
  case (1 n)
  show ?case
  proof (cases "n = 0")
    case True
    then show ?thesis by (subst column_letters.simps) simp
  next
    case nz: False
    show ?thesis
    proof (cases "n mod 26 = 0")
      case True
      with nz have "26 + 26 * (n div 26 - 1) = n" by (rule borrow)
      moreover have "(of_char (char_of (26 + 64 :: nat)) :: nat) - 64 = 26" by simp
      ultimately have "letters_value (char_of (26 + 64 :: nat) # column_letters (n div 26 - 1)) = n"
        using nz True 1 by (simp del: of_char_of)
      with nz True show ?thesis
        by (subst column_letters.simps) simp
    next
      case False
      have "n mod 26 < 26" by simp
      then have "(of_char (char_of (n mod 26 + 64)) :: nat) = n mod 26 + 64"
        by simp
      with nz False 1 show ?thesis
        by (subst column_letters.simps) simp
    qed
  qed
qed

lemma letters_digits_split:
  assumes "xs @ ys = xs' @ ys'"
    and "list_all is_upper_letter xs" and "list_all is_upper_letter xs'"
    and "list_all is_digit ys" and "list_all is_digit ys'"
  shows "xs = xs' \<and> ys = ys'"
  using assms
proof (induction xs arbitrary: xs')
  case Nil
  then show ?case
    by (cases xs') (auto simp: is_upper_letter_def is_digit_def)
next
  case (Cons a as)
  then show ?case
    by (cases xs') (auto simp: is_upper_letter_def is_digit_def)
qed

lemma cell_address_inj:
  assumes "cell_address c r = cell_address c' r'"
    and "1 \<le> c" and "1 \<le> c'" and "0 \<le> r" and "0 \<le> r'"
  shows "c = c' \<and> r = r'"
proof -
  from assms have eq: "rev (column_letters (nat c)) @ str_nat (nat r)
      = rev (column_letters (nat c')) @ str_nat (nat r')"
    by (simp add: cell_address_def str_int_def)
  have "rev (column_letters (nat c)) = rev (column_letters (nat c'))
      \<and> str_nat (nat r) = str_nat (nat r')"
    by (rule letters_digits_split [OF eq])
       (simp_all add: column_letters_upper str_nat_digits)
  then have "letters_value (column_letters (nat c)) = letters_value (column_letters (nat c'))"
    and "digits_value (str_nat (nat r)) = digits_value (str_nat (nat r'))"
    by simp_all
  then have "nat c = nat c'" and "nat r = nat r'"
    by (simp_all add: letters_value_column_letters digits_value_str_nat)
  with \<open>1 \<le> c\<close> \<open>1 \<le> c'\<close> \<open>0 \<le> r\<close> \<open>0 \<le> r'\<close> show ?thesis by linarith
qed

section \<open>The two loops\<close>

lemma update_fresh: "k \<notin> fst ` set al \<Longrightarrow> AList.update k v al = al @ [(k, v)]"
  by (induction al) auto

lemma scan_columns_result:
  assumes "scan_columns ws sc r idx cols (rd, has, m) = Inr (rd', has', m')"
  shows "rd' = rd @ map (ws_value ws r) cols
    \<and> has' = (has \<or> (\<exists>c \<in> set cols. ws_value ws r c \<noteq> NoneValue))
    \<and> m' = fold (\<lambda>c. AList.update (cell_address c r) (idx, c - sc)) cols m
    \<and> (cols \<noteq> [] \<longrightarrow> 1 \<le> r)
    \<and> (\<forall>c \<in> set cols. 1 \<le> c \<and> c \<le> 18278)"
  using assms
proof (induction cols arbitrary: rd has m)
  case Nil
  then show ?case by simp
next
  case (Cons c cols)
  from Cons.prems obtain v where v: "cell ws r c = Inr v"
    by (cases "cell ws r c") auto
  then have r1: "1 \<le> r" and c1: "1 \<le> c" and vv: "v = ws_value ws r c"
    by (auto simp: cell_def split: if_splits)
  from Cons.prems v obtain letter where l: "get_column_letter c = Inr letter"
    by (cases "get_column_letter c") auto
  then have cu: "c \<le> 18278" and ll: "letter @ str_int r = cell_address c r"
    by (auto simp: get_column_letter_def cell_address_def split: if_splits)
  have step: "scan_columns ws sc r idx cols
      (rd @ [v], (if v \<noteq> NoneValue then True else has),
       AList.update (cell_address c r) (idx, c - sc) m) = Inr (rd', has', m')"
    using Cons.prems v l ll by simp
  from Cons.IH [OF step] r1 c1 cu vv show ?case by auto
qed

lemma fold_update_fresh:
  assumes "distinct cols" and "\<forall>c \<in> set cols. 1 \<le> c" and "0 \<le> r"
    and "\<forall>c \<in> set cols. cell_address c r \<notin> fst ` set m"
  shows "fold (\<lambda>c. AList.update (cell_address c r) (idx, c - sc)) cols m
    = m @ row_entries sc idx r cols"
  using assms
proof (induction cols arbitrary: m)
  case Nil
  then show ?case by (simp add: row_entries_def)
next
  case (Cons c cols)
  let ?m1 = "m @ [(cell_address c r, (idx, c - sc))]"
  have m1: "AList.update (cell_address c r) (idx, c - sc) m = ?m1"
    using Cons.prems(4) by (simp add: update_fresh)
  have fr: "\<forall>c' \<in> set cols. cell_address c' r \<notin> fst ` set ?m1"
  proof
    fix c' assume c': "c' \<in> set cols"
    with Cons.prems have "c' \<noteq> c" and "1 \<le> c'" and "1 \<le> c" by auto
    with \<open>0 \<le> r\<close> have "cell_address c' r \<noteq> cell_address c r"
      using cell_address_inj [of c' r c r] by auto
    moreover have "cell_address c' r \<notin> fst ` set m" using Cons.prems(4) c' by simp
    ultimately show "cell_address c' r \<notin> fst ` set ?m1" by auto
  qed
  have "fold (\<lambda>c. AList.update (cell_address c r) (idx, c - sc)) cols ?m1
      = ?m1 @ row_entries sc idx r cols"
    using Cons.prems fr by (intro Cons.IH) auto
  with m1 show ?case by (simp add: row_entries_def)
qed

lemma fold_update_distinct:
  "distinct (map fst m) \<Longrightarrow> distinct (map fst (fold (\<lambda>c. AList.update (k c) (v c)) cols m))"
  by (induction cols arbitrary: m) (simp_all add: distinct_update)

lemma scan_rows_valid:
  assumes "scan_rows ws sc ec ie rows (data, m, idx) = Inr (data', m', idx')"
    and "sc \<le> ec"
  shows "rows \<noteq> [] \<longrightarrow> (\<forall>r \<in> set rows. 1 \<le> r) \<and> (\<forall>c \<in> set [sc..ec]. 1 \<le> c \<and> c \<le> 18278)"
  using assms
proof (induction rows arbitrary: data m idx)
  case Nil
  then show ?case by simp
next
  case (Cons r rows)
  from Cons.prems(1) obtain rd has m1 where
    sc: "scan_columns ws sc r idx [sc..ec] ([], False, m) = Inr (rd, has, m1)"
    by (cases "scan_columns ws sc r idx [sc..ec] ([], False, m)") auto
  from \<open>sc \<le> ec\<close> have ne: "[sc..ec] \<noteq> []" by simp
  from scan_columns_result [OF sc] ne
  have r1: "1 \<le> r" and cs: "\<forall>c \<in> set [sc..ec]. 1 \<le> c \<and> c \<le> 18278" by blast+
  obtain data1 idx1 where
    rest: "scan_rows ws sc ec ie rows (data1, m1, idx1) = Inr (data', m', idx')"
    using Cons.prems(1) sc by (cases "has \<or> ie") auto
  from Cons.IH [OF rest \<open>sc \<le> ec\<close>] r1 cs show ?case
    by (cases rows) auto
qed

lemma scan_rows_result:
  assumes "scan_rows ws sc ec ie rows (data, m, idx) = Inr (data', m', idx')"
    and "distinct rows" and "\<forall>r \<in> set rows. 0 \<le> r" and "1 \<le> sc"
    and "\<forall>r \<in> set rows. \<forall>c \<in> set [sc..ec]. cell_address c r \<notin> fst ` set m"
  shows "data' = data @ map (row_values ws sc ec) (filter (row_kept ws sc ec ie) rows)
    \<and> m' = m @ mapping_entries ws sc ec ie idx rows
    \<and> idx' = idx + int (length (filter (row_kept ws sc ec ie) rows))"
  using assms
proof (induction rows arbitrary: data m idx)
  case Nil
  then show ?case by simp
next
  case (Cons r rows)
  from Cons.prems(1) obtain rd has m1 where
    sc: "scan_columns ws sc r idx [sc..ec] ([], False, m) = Inr (rd, has, m1)"
    by (cases "scan_columns ws sc r idx [sc..ec] ([], False, m)") auto
  note res = scan_columns_result [OF sc]
  have rd: "rd = row_values ws sc ec r" and has: "has = row_has_data ws sc ec r"
    using res by (simp_all add: row_values_def row_has_data_def)
  have c1: "\<forall>c \<in> set [sc..ec]. 1 \<le> c" using \<open>1 \<le> sc\<close> by simp
  have m1: "m1 = m @ row_entries sc idx r [sc..ec]"
    using res fold_update_fresh [of "[sc..ec]" r m idx sc] c1 Cons.prems(3,5) by simp
  let ?idx1 = "if row_kept ws sc ec ie r then idx + 1 else idx"
  let ?data1 = "if row_kept ws sc ec ie r then data @ [rd] else data"
  have rest: "scan_rows ws sc ec ie rows (?data1, m1, ?idx1) = Inr (data', m', idx')"
    using Cons.prems(1) sc has
    by (cases "row_has_data ws sc ec r \<or> ie") (auto simp: row_kept_def)
  have fr: "\<forall>r' \<in> set rows. \<forall>c \<in> set [sc..ec]. cell_address c r' \<notin> fst ` set m1"
  proof (intro ballI)
    fix r' c assume r': "r' \<in> set rows" and c: "c \<in> set [sc..ec]"
    have old: "cell_address c r' \<notin> fst ` set m" using Cons.prems(5) r' c by simp
    have ne: "cell_address c r' \<noteq> cell_address c' r" if "c' \<in> set [sc..ec]" for c'
    proof -
      from r' Cons.prems(2) have "r' \<noteq> r" by auto
      moreover have "0 \<le> r'" "0 \<le> r" using Cons.prems(3) r' by auto
      moreover have "1 \<le> c" "1 \<le> c'" using c that \<open>1 \<le> sc\<close> by auto
      ultimately show ?thesis using cell_address_inj [of c r' c' r] by auto
    qed
    have "cell_address c r' \<notin> fst ` set (row_entries sc idx r [sc..ec])"
    proof
      assume "cell_address c r' \<in> fst ` set (row_entries sc idx r [sc..ec])"
      then obtain c' where "c' \<in> set [sc..ec]" and "cell_address c r' = cell_address c' r"
        unfolding row_entries_def by force
      with ne show False by blast
    qed
    with old m1 show "cell_address c r' \<notin> fst ` set m1" by auto
  qed
  have "data' = ?data1 @ map (row_values ws sc ec) (filter (row_kept ws sc ec ie) rows)
    \<and> m' = m1 @ mapping_entries ws sc ec ie ?idx1 rows
    \<and> idx' = ?idx1 + int (length (filter (row_kept ws sc ec ie) rows))"
    using Cons.prems(2,3,4) fr by (intro Cons.IH [OF rest]) auto
  with m1 rd show ?case by simp
qed

lemma scan_rows_distinct:
  assumes "scan_rows ws sc ec ie rows (data, m, idx) = Inr (data', m', idx')"
    and "distinct (map fst m)"
  shows "distinct (map fst m')"
  using assms
proof (induction rows arbitrary: data m idx)
  case Nil
  then show ?case by simp
next
  case (Cons r rows)
  from Cons.prems(1) obtain rd has m1 where
    sc: "scan_columns ws sc r idx [sc..ec] ([], False, m) = Inr (rd, has, m1)"
    by (cases "scan_columns ws sc r idx [sc..ec] ([], False, m)") auto
  from scan_columns_result [OF sc]
  have "m1 = fold (\<lambda>c. AList.update (cell_address c r) (idx, c - sc)) [sc..ec] m"
    by simp
  with Cons.prems(2) have d1: "distinct (map fst m1)"
    by (simp add: fold_update_distinct)
  obtain data1 idx1 where
    rest: "scan_rows ws sc ec ie rows (data1, m1, idx1) = Inr (data', m', idx')"
    using Cons.prems(1) sc by (cases "has \<or> ie") auto
  from Cons.IH [OF rest d1] show ?case .
qed

section \<open>A successful call\<close>

lemma extract_success:
  assumes run: "extract_cells_by_column_range lw f sh sc ec sr er ie = Inr (t, m)"
    and wb: "lw f = Inr wb" and ws: "workbook_getitem wb sh = Inr ws"
  shows "1 \<le> sc \<and> sc \<le> ec
    \<and> t = map (row_values ws sc ec)
          (filter (row_kept ws sc ec ie) [sr..effective_end_row ws er])
    \<and> m = mapping_entries ws sc ec ie 0 [sr..effective_end_row ws er]
    \<and> (sr \<le> effective_end_row ws er \<longrightarrow> 1 \<le> sr \<and> ec \<le> 18278)"
proof -
  let ?e = "effective_end_row ws er"
  from run wb ws have cols: "1 \<le> sc" "sc \<le> ec"
    by (auto simp: extract_cells_by_column_range_def split: if_splits)
  from run wb ws cols obtain idx where
    scan: "scan_rows ws sc ec ie [sr..?e] ([], [], 0) = Inr (t, m, idx)"
    by (auto simp: extract_cells_by_column_range_def effective_end_row_def Let_def
        split: if_splits sum.splits)
  from scan_rows_valid [OF scan cols(2)]
  have valid: "sr \<le> ?e \<longrightarrow> (\<forall>r \<in> set [sr..?e]. 1 \<le> r) \<and> (\<forall>c \<in> set [sc..ec]. 1 \<le> c \<and> c \<le> 18278)"
    by simp
  then have rows0: "\<forall>r \<in> set [sr..?e]. 0 \<le> r" by fastforce
  from scan_rows_result [OF scan _ rows0 cols(1)]
  have "t = map (row_values ws sc ec) (filter (row_kept ws sc ec ie) [sr..?e])"
    and "m = mapping_entries ws sc ec ie 0 [sr..?e]"
    by simp_all
  moreover from valid cols have "sr \<le> ?e \<longrightarrow> 1 \<le> sr \<and> ec \<le> 18278" by auto
  ultimately show ?thesis using cols by simp
qed

lemma extract_distinct:
  assumes run: "extract_cells_by_column_range lw f sh sc ec sr er ie = Inr (t, m)"
  shows "distinct (map fst m)"
proof -
  from run obtain ws e idx where
    "scan_rows ws sc ec ie [sr..e] ([], [], 0) = Inr (t, m, idx)"
    by (auto simp: extract_cells_by_column_range_def Let_def split: if_splits sum.splits)
  from scan_rows_distinct [OF this] show ?thesis by simp
qed

lemma length_row_entries: "length (row_entries sc idx r cols) = length cols"
  by (simp add: row_entries_def)

lemma length_mapping_entries:
  "length (mapping_entries ws sc ec ie idx rows) = length rows * length [sc..ec]"
  by (induction rows arbitrary: idx) (simp_all add: length_row_entries)

lemma length_upto_max: "int (length [i..j]) = max 0 (j - i + 1)"
  by simp

lemma row_entries_lookup:
  assumes "c \<in> set cols" and "\<forall>x \<in> set cols. 1 \<le> x" and "0 \<le> r"
  shows "map_of (row_entries sc idx r cols) (cell_address c r) = Some (idx, c - sc)"
  using assms
proof (induction cols)
  case Nil
  then show ?case by simp
next
  case (Cons x cols)
  show ?case
  proof (cases "cell_address x r = cell_address c r")
    case True
    with Cons.prems have "x = c" using cell_address_inj [of x r c r] by auto
    then show ?thesis by (simp add: row_entries_def)
  next
    case False
    with Cons.prems have "c \<in> set cols" by auto
    with Cons False show ?thesis by (simp add: row_entries_def)
  qed
qed

lemma row_entries_miss:
  assumes "r \<noteq> p" and "0 \<le> r" and "0 \<le> p" and "1 \<le> c" and "\<forall>x \<in> set cols. 1 \<le> x"
  shows "map_of (row_entries sc idx p cols) (cell_address c r) = None"
proof -
  have "cell_address c r \<notin> fst ` set (row_entries sc idx p cols)"
  proof
    assume "cell_address c r \<in> fst ` set (row_entries sc idx p cols)"
    then obtain x where "x \<in> set cols" and "cell_address c r = cell_address x p"
      unfolding row_entries_def by force
    with assms show False using cell_address_inj [of c r x p] by auto
  qed
  then show ?thesis by (simp add: map_of_eq_None_iff)
qed

lemma mapping_entries_lookup:
  assumes "distinct (pre @ r # post)" and "\<forall>x \<in> set (pre @ r # post). 0 \<le> x"
    and "1 \<le> sc" and "c \<in> set [sc..ec]"
  shows "map_of (mapping_entries ws sc ec ie idx (pre @ r # post)) (cell_address c r)
    = Some (idx + int (length (filter (row_kept ws sc ec ie) pre)), c - sc)"
  using assms
proof (induction pre arbitrary: idx)
  case Nil
  have "map_of (row_entries sc idx r [sc..ec]) (cell_address c r) = Some (idx, c - sc)"
    using Nil.prems by (intro row_entries_lookup) auto
  then show ?case by (simp add: map_add_def)
next
  case (Cons p pre)
  have "map_of (row_entries sc idx p [sc..ec]) (cell_address c r) = None"
    using Cons.prems by (intro row_entries_miss) auto
  moreover have "map_of (mapping_entries ws sc ec ie
        (if row_kept ws sc ec ie p then idx + 1 else idx) (pre @ r # post)) (cell_address c r)
      = Some ((if row_kept ws sc ec ie p then idx + 1 else idx)
              + int (length (filter (row_kept ws sc ec ie) pre)), c - sc)"
    using Cons.prems by (intro Cons.IH) auto
  ultimately show ?case by (simp add: map_add_def)
qed

lemma kept_row_position:
  assumes "sr \<le> r" and "r \<le> e" and "P r"
  shows "length (filter P [sr..r - 1]) < length (filter P [sr..e])
    \<and> filter P [sr..e] ! length (filter P [sr..r - 1]) = r"
proof -
  have "[sr..e] = [sr..r - 1] @ r # [r + 1..e]"
    using assms by (simp add: upto_split3)
  with \<open>P r\<close> have "filter P [sr..e] = filter P [sr..r - 1] @ r # filter P [r + 1..e]"
    by simp
  then show ?thesis by (simp add: nth_append)
qed

lemma demo_opens: "demo_load ''book.xlsx'' = Inr [(''Sheet1'', demo_sheet)]"
  by (simp add: demo_load_def)

lemma demo_sheet1: "workbook_getitem [(''Sheet1'', demo_sheet)] ''Sheet1'' = Inr demo_sheet"
  by (simp add: workbook_getitem_def)

lemma demo_end_row: "effective_end_row demo_sheet None = 4"
  by (simp add: effective_end_row_def demo_sheet_def)

lemma demo_run:
  "extract_cells_by_column_range demo_load ''book.xlsx'' ''Sheet1'' 1 2 1 None False =
     Inr (demo_table, demo_mapping)"
  by code_simp

lemma demo_run_all:
  "extract_cells_by_column_range demo_load ''book.xlsx'' ''Sheet1'' 1 2 1 None True =
     Inr (demo_table_all, demo_mapping_all)"
  by code_simp

text \<open>
  Claim C1. After a successful call, the address of every scanned cell is mapped to the
  number of rows kept before its row and to the column offset. When the row was kept, that
  pair is the position of the cell's value in the table. When the row was dropped, the entry
  stays, and its row index is the one of the next kept row, when there is one.
\<close>

theorem address_map_positions:
  assumes run: "extract_cells_by_column_range lw f sh sc ec sr er ie = Inr (t, m)"
    and wb: "lw f = Inr wb" and ws: "workbook_getitem wb sh = Inr ws"
    and r: "sr \<le> r" "r \<le> effective_end_row ws er"
    and c: "sc \<le> c" "c \<le> ec"
  shows "map_of m (cell_address c r) = Some (kept_before ws sc ec ie sr r, c - sc)
    \<and> (row_kept ws sc ec ie r \<longrightarrow>
          nat (kept_before ws sc ec ie sr r) < length t
        \<and> nat (c - sc) < length (t ! nat (kept_before ws sc ec ie sr r))
        \<and> t ! nat (kept_before ws sc ec ie sr r) ! nat (c - sc) = ws_value ws r c)
    \<and> (\<not> row_kept ws sc ec ie r \<and> r < r' \<and> r' \<le> effective_end_row ws er
         \<and> row_kept ws sc ec ie r' \<and> (\<forall>q \<in> {r..r' - 1}. \<not> row_kept ws sc ec ie q) \<longrightarrow>
          kept_before ws sc ec ie sr r' = kept_before ws sc ec ie sr r)"
proof -
  let ?e = "effective_end_row ws er"
  let ?P = "row_kept ws sc ec ie"
  note s = extract_success [OF run wb ws]
  from s r have sr1: "1 \<le> sr" by auto
  have split: "[sr..?e] = [sr..r - 1] @ r # [r + 1..?e]"
    using r by (simp add: upto_split3)
  have d: "distinct ([sr..r - 1] @ r # [r + 1..?e])"
    using split distinct_upto [of sr ?e] by simp
  have nn: "\<forall>x \<in> set ([sr..r - 1] @ r # [r + 1..?e]). 0 \<le> x"
    using sr1 r by auto
  have cin: "c \<in> set [sc..ec]" using c by simp
  have "map_of (mapping_entries ws sc ec ie 0 ([sr..r - 1] @ r # [r + 1..?e])) (cell_address c r)
      = Some (0 + int (length (filter ?P [sr..r - 1])), c - sc)"
    using d nn s cin by (intro mapping_entries_lookup) auto
  with s split have look: "map_of m (cell_address c r) = Some (kept_before ws sc ec ie sr r, c - sc)"
    by (simp add: kept_before_def)
  have kept: "nat (kept_before ws sc ec ie sr r) < length t
        \<and> nat (c - sc) < length (t ! nat (kept_before ws sc ec ie sr r))
        \<and> t ! nat (kept_before ws sc ec ie sr r) ! nat (c - sc) = ws_value ws r c"
    if k: "?P r"
  proof -
    let ?i = "length (filter ?P [sr..r - 1])"
    from kept_row_position [of sr r ?e ?P, OF r k]
    have i: "?i < length (filter ?P [sr..?e])" and at: "filter ?P [sr..?e] ! ?i = r"
      by simp_all
    from s have t: "t = map (row_values ws sc ec) (filter ?P [sr..?e])" by simp
    with i at have row: "t ! ?i = row_values ws sc ec r" and il: "?i < length t"
      by simp_all
    have len: "nat (c - sc) < length (row_values ws sc ec r)"
      using c by (simp add: row_values_def)
    have "[sc..ec] ! nat (c - sc) = sc + int (nat (c - sc))"
      using c by (intro nth_upto) simp
    with c len have "row_values ws sc ec r ! nat (c - sc) = ws_value ws r c"
      by (simp add: row_values_def)
    with row il len show ?thesis by (simp add: kept_before_def)
  qed
  have stale: "kept_before ws sc ec ie sr r' = kept_before ws sc ec ie sr r"
    if nx: "r < r'" and gap: "\<forall>q \<in> {r..r' - 1}. \<not> ?P q"
  proof -
    have "[sr..r' - 1] = [sr..r - 1] @ [r..r' - 1]"
      using r(1) nx by (intro upto_split1) simp_all
    moreover have "filter ?P [r..r' - 1] = []"
      using gap by (simp add: filter_empty_conv)
    ultimately show ?thesis by (simp add: kept_before_def)
  qed
  from look kept stale show ?thesis by blast
qed

theorem address_map_positions_witness:
  "map_of demo_mapping ''B3'' = Some (1, 1)
   \<and> demo_table ! 1 ! 1 = ws_value demo_sheet 3 2
   \<and> map_of demo_mapping ''A2'' = Some (1, 0)
   \<and> kept_before demo_sheet 1 2 False 1 3 = kept_before demo_sheet 1 2 False 1 2"
proof -
  have k3: "row_kept demo_sheet 1 2 False 3" by code_simp
  have k2: "\<not> row_kept demo_sheet 1 2 False 2" by code_simp
  have gap: "\<forall>q \<in> {2..3 - 1}. \<not> row_kept demo_sheet 1 2 False q"
    using k2 by simp
  have b3: "cell_address 2 3 = ''B3''" by code_simp
  have a2: "cell_address 1 2 = ''A2''" by code_simp
  have kb3: "kept_before demo_sheet 1 2 False 1 3 = 1" by code_simp
  have kb2: "kept_before demo_sheet 1 2 False 1 2 = 1" by code_simp
  from address_map_positions [OF demo_run demo_opens demo_sheet1, of 3 2 3]
    address_map_positions [OF demo_run demo_opens demo_sheet1, of 2 1 3]
    k3 k2 gap b3 a2 kb3 kb2 demo_end_row
  show ?thesis by simp
qed

text \<open>
  Claim C2, as amended. After a successful call the mapping has
  max(0, endRow - startRow + 1) * (endColumn - startColumn + 1) entries under distinct keys,
  whatever the filter drops, where endRow is the end row the scan uses.
\<close>

theorem entry_count:
  assumes run: "extract_cells_by_column_range lw f sh sc ec sr er ie = Inr (t, m)"
    and wb: "lw f = Inr wb" and ws: "workbook_getitem wb sh = Inr ws"
  shows "int (length m) = max 0 (effective_end_row ws er - sr + 1) * (ec - sc + 1)
    \<and> distinct (map fst m)"
proof -
  note s = extract_success [OF run wb ws]
  then have "length m = length [sr..effective_end_row ws er] * length [sc..ec]"
    by (simp only: length_mapping_entries)
  then have "int (length m) = int (length [sr..effective_end_row ws er]) * int (length [sc..ec])"
    by simp
  also have "int (length [sc..ec]) = ec - sc + 1" using s by simp
  also have "int (length [sr..effective_end_row ws er]) = max 0 (effective_end_row ws er - sr + 1)"
    by (rule length_upto_max)
  finally show ?thesis using extract_distinct [OF run] by simp
qed

theorem entry_count_witness:
  "int (length demo_mapping) = max 0 (4 - 1 + 1) * (2 - 1 + 1) \<and> distinct (map fst demo_mapping)"
  using entry_count [OF demo_run demo_opens demo_sheet1] demo_end_row by simp

text \<open>
  Claim C2 as stated fails when the end row is more than one below the start row: the call
  succeeds with an empty mapping, and the product of the claim is negative.
\<close>

theorem entry_count_negative_window:
  "extract_cells_by_column_range demo_load ''book.xlsx'' ''Sheet1'' 1 2 5 (Some 3) False =
     Inr ([], [])
   \<and> int (length ([] :: cell_mapping)) \<noteq> (3 - 5 + 1) * (2 - 1 + 1)"
  by code_simp

text \<open>
  Claim C3, as amended. After a successful call the table has exactly
  max(0, endRow - startRow + 1) rows when empty rows are included, and at most that many
  when they are not.
\<close>

theorem row_count:
  assumes run: "extract_cells_by_column_range lw f sh sc ec sr er ie = Inr (t, m)"
    and wb: "lw f = Inr wb" and ws: "workbook_getitem wb sh = Inr ws"
  shows "(ie \<longrightarrow> int (length t) = max 0 (effective_end_row ws er - sr + 1))
    \<and> (\<not> ie \<longrightarrow> int (length t) \<le> max 0 (effective_end_row ws er - sr + 1))"
proof -
  let ?rows = "[sr..effective_end_row ws er]"
  from extract_success [OF run wb ws]
  have t: "length t = length (filter (row_kept ws sc ec ie) ?rows)" by simp
  have "length (filter (row_kept ws sc ec ie) ?rows) \<le> length ?rows"
    by (rule length_filter_le)
  moreover have "ie \<Longrightarrow> filter (row_kept ws sc ec ie) ?rows = ?rows"
    by (simp add: row_kept_def)
  ultimately have "(ie \<longrightarrow> int (length t) = int (length ?rows))
    \<and> (\<not> ie \<longrightarrow> int (length t) \<le> int (length ?rows))"
    using t by auto
  then show ?thesis by (simp only: length_upto_max)
qed

theorem row_count_witness:
  "int (length demo_table_all) = max 0 (4 - 1 + 1) \<and> int (length demo_table) \<le> max 0 (4 - 1 + 1)"
  using row_count [OF demo_run_all demo_opens demo_sheet1]
    row_count [OF demo_run demo_opens demo_sheet1] demo_end_row
  by simp

text \<open>
  Claim C3 as stated fails on the same windows: the table is empty, and
  endRow - startRow + 1 is negative.
\<close>

theorem row_count_negative_window:
  "extract_cells_by_column_range demo_load ''book.xlsx'' ''Sheet1'' 1 2 4 (Some 2) True =
     Inr ([], [])
   \<and> int (length ([] :: cell_value list list)) \<noteq> 2 - 4 + 1
   \<and> extract_cells_by_column_range demo_load ''book.xlsx'' ''Sheet1'' 1 2 4 (Some 2) False =
     Inr ([], [])
   \<and> \<not> int (length ([] :: cell_value list list)) \<le> 2 - 4 + 1"
  by code_simp

text \<open>
  Claim C4. After a successful call every row of the table has endColumn - startColumn + 1
  entries, and they are the values of one scanned row in the requested columns, in
  ascending column order.
\<close>

theorem row_shape:
  assumes run: "extract_cells_by_column_range lw f sh sc ec sr er ie = Inr (t, m)"
    and wb: "lw f = Inr wb" and ws: "workbook_getitem wb sh = Inr ws"
    and i: "i < length t"
  shows "int (length (t ! i)) = ec - sc + 1
    \<and> (\<exists>r. sr \<le> r \<and> r \<le> effective_end_row ws er
          \<and> (\<forall>j < length (t ! i). t ! i ! j = ws_value ws r (sc + int j)))"
proof -
  let ?K = "filter (row_kept ws sc ec ie) [sr..effective_end_row ws er]"
  note s = extract_success [OF run wb ws]
  then have t: "t = map (row_values ws sc ec) ?K" by simp
  with i have iK: "i < length ?K" by simp
  with t have row: "t ! i = row_values ws sc ec (?K ! i)" by simp
  have "?K ! i \<in> set ?K" using iK by (rule nth_mem)
  then have rng: "sr \<le> ?K ! i \<and> ?K ! i \<le> effective_end_row ws er" by simp
  have len: "int (length (t ! i)) = ec - sc + 1"
    using s row by (simp add: row_values_def)
  have "t ! i ! j = ws_value ws (?K ! i) (sc + int j)" if "j < length (t ! i)" for j
  proof -
    from that row have j: "j < length [sc..ec]" by (simp add: row_values_def)
    then have "sc + int j \<le> ec" by simp
    then have "[sc..ec] ! j = sc + int j" by (rule nth_upto)
    with j row show ?thesis by (simp add: row_values_def)
  qed
  with len rng show ?thesis by blast
qed

theorem row_shape_witness:
  "int (length (demo_table ! 1)) = 2 - 1 + 1
   \<and> (\<exists>r. 1 \<le> r \<and> r \<le> 4
        \<and> (\<forall>j < length (demo_table ! 1). demo_table ! 1 ! j = ws_value demo_sheet r (1 + int j)))"
proof -
  have "1 < length demo_table" by (simp add: demo_table_def)
  from row_shape [OF demo_run demo_opens demo_sheet1 this]
  show ?thesis by (simp only: demo_end_row)
qed

text \<open>
  Claim C10. After a successful call the table is the scanned rows in order without those
  that are dropped, and a row is dropped exactly when empty rows are not included and every
  value of the row in the requested columns is \<open>NoneValue\<close>; the empty text, zero and
  false are values like any other.
\<close>

theorem empty_row_rule:
  assumes run: "extract_cells_by_column_range lw f sh sc ec sr er ie = Inr (t, m)"
    and wb: "lw f = Inr wb" and ws: "workbook_getitem wb sh = Inr ws"
  shows "t = map (row_values ws sc ec)
     (filter (\<lambda>r. ie \<or> \<not> (\<forall>c \<in> {sc..ec}. ws_value ws r c = NoneValue))
        [sr..effective_end_row ws er])"
proof -
  have "row_kept ws sc ec ie = (\<lambda>r. ie \<or> \<not> (\<forall>c \<in> {sc..ec}. ws_value ws r c = NoneValue))"
    by (auto simp: row_kept_def row_has_data_def fun_eq_iff)
  with extract_success [OF run wb ws] show ?thesis by simp
qed

theorem empty_row_rule_witness:
  "demo_table = map (row_values demo_sheet 1 2)
     (filter (\<lambda>r. False \<or> \<not> (\<forall>c \<in> {1..2}. ws_value demo_sheet r c = NoneValue)) [1..4])
   \<and> filter (\<lambda>r. False \<or> \<not> (\<forall>c \<in> {1..2}. ws_value demo_sheet r c = NoneValue)) [1..4] = [1, 3, 4]"
proof -
  have cols: "{1..2::int} = {1, 2}" by auto
  have r4: "[1..4::int] = [1, 2, 3, 4]" by code_simp
  have rows: "filter (\<lambda>r. False \<or> \<not> (\<forall>c \<in> {1..2}. ws_value demo_sheet r c = NoneValue)) [1..4]
      = [1, 3, 4]"
    by (simp add: cols r4 demo_sheet_def)
  from empty_row_rule [OF demo_run demo_opens demo_sheet1]
  have "demo_table = map (row_values demo_sheet 1 2)
     (filter (\<lambda>r. False \<or> \<not> (\<forall>c \<in> {1..2}. ws_value demo_sheet r c = NoneValue)) [1..4])"
    by (simp only: demo_end_row)
  then show ?thesis using rows by (rule conjI)
qed

section \<open>Column letters and column numbers\<close>

lemma upper_letter_code:
  "is_upper_letter ch \<Longrightarrow> 1 \<le> (of_char ch :: nat) - 64 \<and> (of_char ch :: nat) - 64 \<le> 26"
  unfolding is_upper_letter_def by arith

lemma column_letters_step:
  assumes d: "1 \<le> d" "d \<le> 26"
  shows "column_letters (d + 26 * v) = char_of (d + 64) # column_letters v"
proof (cases "d = 26")
  case True
  then have "(d + 26 * v) mod 26 = 0" and "(d + 26 * v) div 26 - 1 = v" and "d + 26 * v \<noteq> 0"
    by simp_all
  with True show ?thesis by (subst column_letters.simps) simp
next
  case False
  with d have "d < 26" by simp
  then have "(d + 26 * v) mod 26 = d" and "(d + 26 * v) div 26 = v"
    by simp_all
  moreover from d have "d \<noteq> 0" and "d + 26 * v \<noteq> 0" by simp_all
  ultimately show ?thesis by (subst column_letters.simps) simp
qed

lemma column_letters_letters_value:
  "list_all is_upper_letter ls \<Longrightarrow> column_letters (letters_value ls) = ls"
proof (induction ls)
  case Nil
  show ?case by (subst column_letters.simps) simp
next
  case (Cons ch ls)
  let ?d = "(of_char ch :: nat) - 64"
  from Cons.prems have u: "is_upper_letter ch" by simp
  then have d: "1 \<le> ?d" "?d \<le> 26" using upper_letter_code by blast+
  from u have "?d + 64 = of_char ch" by (simp add: is_upper_letter_def)
  then have ch: "char_of (?d + 64) = ch" by (simp del: of_char_of)
  have "column_letters (?d + 26 * letters_value ls) = char_of (?d + 64) # column_letters (letters_value ls)"
    using d by (rule column_letters_step)
  with ch Cons show ?case by simp
qed

lemma letters_value_bounds:
  assumes "list_all is_upper_letter ls" and "1 \<le> length ls" and "length ls \<le> 3"
  shows "1 \<le> letters_value ls \<and> letters_value ls \<le> 18278"
proof -
  from assms(2,3) consider a where "ls = [a]" | a b where "ls = [a, b]"
    | a b c where "ls = [a, b, c]"
    by (cases ls; cases "tl ls"; cases "tl (tl ls)"; cases "tl (tl (tl ls))") auto
  then show ?thesis
  proof cases
    case 1
    with assms(1) upper_letter_code [of a] show ?thesis by simp
  next
    case 2
    with assms(1) upper_letter_code [of a] upper_letter_code [of b] show ?thesis by simp
  next
    case 3
    with assms(1) upper_letter_code [of a] upper_letter_code [of b] upper_letter_code [of c]
    show ?thesis by simp
  qed
qed

lemma conversion_round_trip:
  assumes "column_index_from_string s = Inr x"
  shows "get_column_letter x = Inr (map upper_char s)"
proof -
  let ?u = "map upper_char s"
  from assms have u: "list_all is_upper_letter ?u" "1 \<le> length ?u" "length ?u \<le> 3"
    and x: "x = int (letters_value (rev ?u))"
    by (auto simp: column_index_from_string_def Let_def split: if_splits)
  from u have ru: "list_all is_upper_letter (rev ?u)" by (simp add: list_all_iff)
  with u have b: "1 \<le> letters_value (rev ?u) \<and> letters_value (rev ?u) \<le> 18278"
    by (intro letters_value_bounds) simp_all
  have "column_letters (letters_value (rev ?u)) = rev ?u"
    using ru by (rule column_letters_letters_value)
  with b x show ?thesis by (simp add: get_column_letter_def)
qed

text \<open>
  Claim C5. When both letter strings convert, the call by letters returns what the call by
  numbers returns on the converted numbers, with the other arguments as they are; the
  numbers are those whose column letters are the given strings in upper case.
\<close>

theorem letters_agree:
  assumes a: "column_index_from_string a = Inr x" and b: "column_index_from_string b = Inr y"
  shows "extract_cells_by_column_letters lw f sh a b sr er ie =
      extract_cells_by_column_range lw f sh x y sr er ie
    \<and> get_column_letter x = Inr (map upper_char a)
    \<and> get_column_letter y = Inr (map upper_char b)"
  using a b conversion_round_trip [OF a] conversion_round_trip [OF b]
  by (simp add: extract_cells_by_column_letters_def)

theorem letters_agree_witness:
  "extract_cells_by_column_letters demo_load ''book.xlsx'' ''Sheet1'' ''A'' ''c'' 1 None False =
     extract_cells_by_column_range demo_load ''book.xlsx'' ''Sheet1'' 1 3 1 None False
   \<and> get_column_letter 1 = Inr ''A'' \<and> get_column_letter 3 = Inr ''C''"
proof -
  have a: "column_index_from_string ''A'' = Inr 1" by code_simp
  have c: "column_index_from_string ''c'' = Inr 3" by code_simp
  have u: "map upper_char ''A'' = ''A''" "map upper_char ''c'' = ''C''" by code_simp+
  from letters_agree [OF a c, of demo_load "''book.xlsx''" "''Sheet1''" 1 None False] u
  show ?thesis by simp
qed

end
